theory Spec2Isabelle
  imports Complex_Main "HOL-Library.Word"
begin

section \<open>Python values used by the suite\<close>

text \<open>
  A Python \<open>str\<close> is a sequence of Unicode code points, a \<open>bytes\<close> object a sequence of
  octets. String literals of the source are written with \<open>py\<close>, bytes literals with
  \<open>pyb\<close>.
\<close>

type_synonym pystr = "nat list"

type_synonym byte = "8 word"

definition py :: "string \<Rightarrow> pystr" where
  "py s = map of_char s"

definition pyb :: "string \<Rightarrow> byte list" where
  "pyb s = map of_char s"

text \<open>
  The exceptions that the code can raise; \<open>ValueError\<close> carries its message, and
  \<open>OtherError\<close> is an exception of any other class, with its text.
\<close>

datatype error = IndexError | ZeroDivisionError | ValueError pystr | OtherError pystr

text \<open>\<open>str(i)\<close> for an integer, as an f-string field \<open>{i}\<close> renders it.\<close>

fun digits :: "nat \<Rightarrow> pystr" where
  "digits n = (if n < 10 then [48 + n] else digits (n div 10) @ [48 + n mod 10])"

declare digits.simps [simp del]

definition str_int :: "int \<Rightarrow> pystr" where
  "str_int i = (if i < 0 then 45 # digits (nat (- i)) else digits (nat i))"

text \<open>\<open>s.startswith(p)\<close> and the substring test \<open>sub in s\<close>.\<close>

fun startswith :: "'a list \<Rightarrow> 'a list \<Rightarrow> bool" where
  "startswith s [] = True"
| "startswith [] (p # ps) = False"
| "startswith (c # cs) (p # ps) = (c = p \<and> startswith cs ps)"

fun substr_in :: "'a list \<Rightarrow> 'a list \<Rightarrow> bool" where
  "substr_in sub [] = (sub = [])"
| "substr_in sub (c # cs) = (startswith (c # cs) sub \<or> substr_in sub cs)"

text \<open>
  \<open>bytes.decode(errors='ignore')\<close>: UTF-8 decoding that drops every octet which is not
  part of a well-formed sequence. The decoder of CPython skips, at an ill-formed sequence,
  the lead octet and the continuation octets it has already accepted; a continuation octet
  is never a valid lead octet, so the result is the same as skipping one octet at a time.
\<close>

definition is_cont :: "nat \<Rightarrow> bool" where
  "is_cont c = (128 \<le> c \<and> c \<le> 191)"

definition valid2nd3 :: "nat \<Rightarrow> nat \<Rightarrow> bool" where
  "valid2nd3 n c = (if n = 224 then 160 \<le> c \<and> c \<le> 191
                    else if n = 237 then 128 \<le> c \<and> c \<le> 159
                    else is_cont c)"

definition valid2nd4 :: "nat \<Rightarrow> nat \<Rightarrow> bool" where
  "valid2nd4 n c = (if n = 240 then 144 \<le> c \<and> c \<le> 191
                    else if n = 244 then 128 \<le> c \<and> c \<le> 143
                    else is_cont c)"

fun decode_ignore :: "byte list \<Rightarrow> pystr" where
  "decode_ignore [] = []"
| "decode_ignore (b # bs) =
     (let n = unat b in
      if n < 128 then n # decode_ignore bs
      else if 194 \<le> n \<and> n \<le> 223 then
        (case bs of
           c1 # r \<Rightarrow>
             if is_cont (unat c1)
             then ((n - 192) * 64 + (unat c1 - 128)) # decode_ignore r
             else decode_ignore bs
         | [] \<Rightarrow> decode_ignore bs)
      else if 224 \<le> n \<and> n \<le> 239 then
        (case bs of
           c1 # c2 # r \<Rightarrow>
             if valid2nd3 n (unat c1) \<and> is_cont (unat c2)
             then ((n - 224) * 4096 + (unat c1 - 128) * 64 + (unat c2 - 128)) # decode_ignore r
             else decode_ignore bs
         | _ \<Rightarrow> decode_ignore bs)
      else if 240 \<le> n \<and> n \<le> 244 then
        (case bs of
           c1 # c2 # c3 # r \<Rightarrow>
             if valid2nd4 n (unat c1) \<and> is_cont (unat c2) \<and> is_cont (unat c3)
             then ((n - 240) * 262144 + (unat c1 - 128) * 4096 + (unat c2 - 128) * 64
                   + (unat c3 - 128)) # decode_ignore r
             else decode_ignore bs
         | _ \<Rightarrow> decode_ignore bs)
      else decode_ignore bs)"

text \<open>
  \<open>str.splitlines()\<close>: the line boundaries are LF, CR, CR LF, VT, FF, FS, GS, RS, NEL,
  LS and PS; a final line break adds no empty line, and the empty string has no line.
\<close>

definition is_linebreak :: "nat \<Rightarrow> bool" where
  "is_linebreak c = (c \<in> {10, 11, 12, 13, 28, 29, 30, 133, 8232, 8233})"

fun splitlines_from :: "pystr \<Rightarrow> pystr \<Rightarrow> pystr list" where
  "splitlines_from cur [] = (if cur = [] then [] else [cur])"
| "splitlines_from cur [c] = (if is_linebreak c then [cur] else [cur @ [c]])"
| "splitlines_from cur (c # d # cs) =
     (if c = 13 \<and> d = 10 then cur # splitlines_from [] cs
      else if is_linebreak c then cur # splitlines_from [] (d # cs)
      else splitlines_from (cur @ [c]) (d # cs))"

definition splitlines :: "pystr \<Rightarrow> pystr list" where
  "splitlines s = splitlines_from [] s"

text \<open>\<open>xs[0]\<close> raises IndexError on an empty list.\<close>

definition getitem0 :: "'a list \<Rightarrow> error + 'a" where
  "getitem0 xs = (case xs of [] \<Rightarrow> Inl IndexError | x # _ \<Rightarrow> Inr x)"

text \<open>True division \<open>a / b\<close> of two integers; the quotient is kept exact.\<close>

definition truediv :: "int \<Rightarrow> int \<Rightarrow> error + rat" where
  "truediv a b = (if b = 0 then Inl ZeroDivisionError else Inr (of_int a / of_int b))"

section \<open>Packet sniffer (sniffer/packet\_sniffer.py)\<close>

text \<open>
  A dissected frame: which of the layers the handler asks for are present, with the fields
  it reads. \<open>haslayer\<close> tests presence; \<open>packet[L]\<close> raises IndexError when layer \<open>L\<close>
  is absent. \<open>pkt_len\<close> is \<open>len(packet)\<close>.
\<close>

record ip_hdr =
  src :: pystr
  dst :: pystr

record tcp_hdr =
  tcp_sport :: int
  tcp_dport :: int

record udp_hdr =
  udp_sport :: int
  udp_dport :: int

record icmp_hdr =
  icmp_type :: int

record raw_hdr =
  load :: "byte list"

record packet =
  ip_layer :: "ip_hdr option"
  tcp_layer :: "tcp_hdr option"
  udp_layer :: "udp_hdr option"
  icmp_layer :: "icmp_hdr option"
  dns_layer :: bool
  raw_layer :: "raw_hdr option"
  pkt_len :: int

definition haslayer :: "'a option \<Rightarrow> bool" where
  "haslayer l = (l \<noteq> None)"

definition getlayer :: "'a option \<Rightarrow> error + 'a" where
  "getlayer l = (case l of None \<Rightarrow> Inl IndexError | Some h \<Rightarrow> Inr h)"

datatype proto = TCP | UDP | ICMP | Other

text \<open>
  \<open>protocol_stats\<close> is a dict with the four keys TCP, UDP, ICMP, Other, created with all
  four in \<open>__init__\<close> and in \<open>start_sniffing\<close> and never losing one: a total function
  on \<open>proto\<close>. \<open>items\<close> lists it in insertion order.
\<close>

type_synonym stats = "proto \<Rightarrow> int"

definition bump :: "stats \<Rightarrow> proto \<Rightarrow> stats" where
  "bump st p = st(p := st p + 1)"

definition items :: "stats \<Rightarrow> (proto \<times> int) list" where
  "items st = map (\<lambda>p. (p, st p)) [TCP, UDP, ICMP, Other]"

definition sum_values :: "stats \<Rightarrow> int" where
  "sum_values st = st TCP + st UDP + st ICMP + st Other"

record report =
  report_total :: int
  report_rows :: "(proto \<times> int \<times> rat) list"

text \<open>The sum of the counts that a report shows.\<close>

definition report_sum :: "report \<Rightarrow> int" where
  "report_sum r = sum_list (map (\<lambda>(p, count, pc). count) (report_rows r))"

record sniffer =
  packet_count :: int
  running :: bool
  protocol_stats :: stats
  captured_packets :: "packet list"
  log :: "pystr list"
  stats_out :: "report list"

text \<open>The table \<open>icmp_types\<close> with \<open>.get(t, '')\<close>.\<close>

definition icmp_types_get :: "int \<Rightarrow> pystr" where
  "icmp_types_get t =
     (if t = 0 then py ''Echo Reply''
      else if t = 3 then py ''Dest Unreachable''
      else if t = 8 then py ''Echo Request''
      else if t = 11 then py ''Time Exceeded''
      else [])"

text \<open>
  The body of the \<open>try\<close> block of \<open>packet_handler\<close> (lines 75 to 77): decode the payload,
  look for a token, append the first line. Any exception of the block is a result \<open>Inl\<close>.
\<close>

definition http_tokens :: "pystr list" where
  "http_tokens = [py ''GET'', py ''POST'', py ''HTTP'']"

definition http_subparse :: "pystr \<Rightarrow> packet \<Rightarrow> error + pystr" where
  "http_subparse summary packet =
     (case getlayer (raw_layer packet) of
        Inl e \<Rightarrow> Inl e
      | Inr raw \<Rightarrow>
          let data = decode_ignore (load raw) in
          if list_ex (\<lambda>method. substr_in method data) http_tokens
          then (case getitem0 (splitlines data) of
                  Inl e \<Rightarrow> Inl e
                | Inr line \<Rightarrow> Inr (summary @ py '' [HTTP] '' @ line))
          else Inr summary)"

text \<open>\<open>try: ... except Exception: pass\<close> around it: a failure leaves the summary as it was.\<close>

definition try_http :: "pystr \<Rightarrow> packet \<Rightarrow> pystr" where
  "try_http summary packet =
     (case http_subparse summary packet of Inl e \<Rightarrow> summary | Inr s \<Rightarrow> s)"

text \<open>
  Lines 60 to 100 of \<open>packet_handler\<close>: the protocol tag \<open>proto\<close>, the summary line and
  the update of \<open>protocol_stats\<close>. The statistics are passed in and returned.
\<close>

definition classify_packet :: "stats \<Rightarrow> packet \<Rightarrow> error + (proto \<times> pystr \<times> stats)" where
  "classify_packet st packet =
     (if haslayer (ip_layer packet) then
        (case getlayer (ip_layer packet) of
           Inl e \<Rightarrow> Inl e
         | Inr ip \<Rightarrow>
             let src_ip = src ip; dst_ip = dst ip in
             if haslayer (tcp_layer packet) then
               (let st1 = bump st TCP in
                case getlayer (tcp_layer packet) of
                  Inl e \<Rightarrow> Inl e
                | Inr tcp \<Rightarrow>
                    let summary = py ''TCP '' @ src_ip @ py '':'' @ str_int (tcp_sport tcp)
                                  @ py '' -> '' @ dst_ip @ py '':'' @ str_int (tcp_dport tcp);
                        summary1 = (if tcp_dport tcp = 80 \<or> tcp_sport tcp = 80
                                    then (if haslayer (raw_layer packet)
                                          then try_http summary packet else summary)
                                    else summary);
                        summary2 = (if tcp_dport tcp = 443 \<or> tcp_sport tcp = 443
                                    then summary1 @ py '' [HTTPS]'' else summary1)
                    in Inr (TCP, summary2, st1))
             else if haslayer (udp_layer packet) then
               (let st1 = bump st UDP in
                case getlayer (udp_layer packet) of
                  Inl e \<Rightarrow> Inl e
                | Inr udp \<Rightarrow>
                    let summary = py ''UDP '' @ src_ip @ py '':'' @ str_int (udp_sport udp)
                                  @ py '' -> '' @ dst_ip @ py '':'' @ str_int (udp_dport udp);
                        summary1 = (if dns_layer packet
                                    then summary @ py '' [DNS Query]'' else summary)
                    in Inr (UDP, summary1, st1))
             else if haslayer (icmp_layer packet) then
               (let st1 = bump st ICMP in
                case getlayer (icmp_layer packet) of
                  Inl e \<Rightarrow> Inl e
                | Inr icmp \<Rightarrow>
                    Inr (ICMP,
                         py ''ICMP '' @ src_ip @ py '' -> '' @ dst_ip @ py '' Type: ''
                         @ str_int (icmp_type icmp) @ py '' ('' @ icmp_types_get (icmp_type icmp)
                         @ py '')'',
                         st1))
             else
               Inr (Other, src_ip @ py '' -> '' @ dst_ip @ py '' (Other Protocol)'',
                    bump st Other))
      else
        Inr (Other, py ''Unknown Packet ('' @ str_int (pkt_len packet) @ py '' bytes)'',
             bump st Other))"

text \<open>
  \<open>print_stats\<close>: the header line carries the total, each row a protocol, its count and
  its percentage. The loop stops at the first exception.
\<close>

fun percent_rows :: "(int \<Rightarrow> error + rat) \<Rightarrow> (proto \<times> int) list
                     \<Rightarrow> error + (proto \<times> int \<times> rat) list" where
  "percent_rows pc [] = Inr []"
| "percent_rows pc ((p, count) # rest) =
     (case pc count of
        Inl e \<Rightarrow> Inl e
      | Inr v \<Rightarrow> (case percent_rows pc rest of
                    Inl e \<Rightarrow> Inl e
                  | Inr rows \<Rightarrow> Inr ((p, count, v) # rows)))"

definition print_stats :: "sniffer \<Rightarrow> error + report" where
  "print_stats self =
     (let total = (if packet_count self > 0 then packet_count self else 1) in
      case percent_rows
             (\<lambda>count. case truediv count total of Inl e \<Rightarrow> Inl e | Inr q \<Rightarrow> Inr (q * 100))
             (items (protocol_stats self)) of
        Inl e \<Rightarrow> Inl e
      | Inr rows \<Rightarrow> Inr \<lparr>report_total = packet_count self, report_rows = rows\<rparr>)"

text \<open>
  \<open>packet_handler\<close>: count the frame, classify it, log the summary, keep the frame, and
  print the statistics at every tenth frame. \<open>Inl e\<close>: exception \<open>e\<close> leaves the handler.
\<close>

definition packet_handler :: "sniffer \<Rightarrow> packet \<Rightarrow> error + sniffer" where
  "packet_handler self packet =
     (let self1 = self\<lparr>packet_count := packet_count self + 1\<rparr> in
      case classify_packet (protocol_stats self1) packet of
        Inl e \<Rightarrow> Inl e
      | Inr (proto, summary, st') \<Rightarrow>
          let self2 = self1\<lparr>protocol_stats := st',
                            log := log self1 @ [py ''Packet #'' @ str_int (packet_count self1)
                                                @ py '': '' @ summary],
                            captured_packets := captured_packets self1 @ [packet]\<rparr>
          in if packet_count self2 mod 10 = 0
             then (case print_stats self2 of
                     Inl e \<Rightarrow> Inl e
                   | Inr r \<Rightarrow> Inr (self2\<lparr>stats_out := stats_out self2 @ [r]\<rparr>))
             else Inr self2)"

text \<open>
  \<open>start_sniffing\<close>, lines 120 to 123: the reset at session start. The capture itself is
  \<open>scapy.sniff\<close>, which calls the handler on each frame in turn; an exception of the
  handler ends the capture.
\<close>

definition start_sniffing :: "sniffer \<Rightarrow> sniffer" where
  "start_sniffing self =
     self\<lparr>running := True, packet_count := 0, protocol_stats := (\<lambda>_. 0),
          captured_packets := []\<rparr>"

fun sniff :: "sniffer \<Rightarrow> packet list \<Rightarrow> error + sniffer" where
  "sniff self [] = Inr self"
| "sniff self (p # ps) =
     (case packet_handler self p of Inl e \<Rightarrow> Inl e | Inr self' \<Rightarrow> sniff self' ps)"

text \<open>
  \<open>stop_sniffing\<close>: the final percentages written to the log (lines 159 to 161), then
  \<open>print_stats\<close>. Both reports are appended to \<open>stats_out\<close>, the logged one first.
  Writing the capture file is left to Scapy.
\<close>

definition stop_sniffing :: "sniffer \<Rightarrow> error + sniffer" where
  "stop_sniffing self =
     (let self1 = self\<lparr>running := False\<rparr> in
      case percent_rows
             (\<lambda>count. if packet_count self1 \<noteq> 0
                       then (case truediv count (packet_count self1) of
                               Inl e \<Rightarrow> Inl e | Inr q \<Rightarrow> Inr (q * 100))
                       else Inr 0)
             (items (protocol_stats self1)) of
        Inl e \<Rightarrow> Inl e
      | Inr rows \<Rightarrow>
          let self2 = self1\<lparr>stats_out := stats_out self1
                              @ [\<lparr>report_total = packet_count self1, report_rows = rows\<rparr>]\<rparr>
          in (case print_stats self2 of
                Inl e \<Rightarrow> Inl e
              | Inr r \<Rightarrow> Inr (self2\<lparr>stats_out := stats_out self2 @ [r]\<rparr>)))"

section \<open>Network scanner (scanner/network\_scanner.py)\<close>

text \<open>
  A device entry is a dict with the keys \<open>ip\<close> and \<open>mac\<close> and, optionally, \<open>vendor\<close>.
\<close>

record device =
  ip :: pystr
  mac :: pystr
  vendor :: "pystr option"

text \<open>
  The probe \<open>Ether(dst="ff:ff:ff:ff:ff:ff")/ARP(pdst=subnet)\<close> is one who-has request
  (\<open>op\<close> 1) per address of the target; a request is given by the address it asks for.
  A received ARP frame has its \<open>op\<close>, the sender's IP \<open>psrc\<close> and the sender's
  hardware address \<open>hwsrc\<close>.
\<close>

record arp_request =
  pdst :: pystr

record arp =
  op :: int
  psrc :: pystr
  hwsrc :: pystr

text \<open>
  \<open>ARP.answers\<close> of Scapy: the frame answers a request when its \<open>op\<close> is the request's
  plus one and its \<open>psrc\<close> is the address asked for.
\<close>

definition who_has :: int where
  "who_has = 1"

definition answers :: "arp \<Rightarrow> arp_request \<Rightarrow> bool" where
  "answers r other = (op r = who_has + 1 \<and> psrc r = pdst other)"

text \<open>
  \<open>srp(packet, timeout=3, retry=1)[0]\<close> of Scapy, called without \<open>multi\<close>: each frame
  that arrives is held against the requests still unanswered, in order; the first request
  it answers is paired with it and leaves the unanswered ones, and a frame that answers
  none is dropped. The retry sends the unanswered requests once more, so \<open>received\<close> is
  the ARP frames of both rounds in the order of arrival.
\<close>

fun first_answered :: "arp \<Rightarrow> arp_request list \<Rightarrow> (arp_request \<times> arp_request list) option" where
  "first_answered r [] = None"
| "first_answered r (s # hlst) =
     (if answers r s then Some (s, hlst)
      else (case first_answered r hlst of
              None \<Rightarrow> None
            | Some (s', remain) \<Rightarrow> Some (s', s # remain)))"

fun srp :: "arp_request list \<Rightarrow> arp list \<Rightarrow> (arp_request \<times> arp) list" where
  "srp tobesent [] = []"
| "srp tobesent (r # rs) =
     (case first_answered r tobesent of
        None \<Rightarrow> srp tobesent rs
      | Some (s, remain) \<Rightarrow> (s, r) # srp remain rs)"

text \<open>
  \<open>perform_arp_scan\<close>. \<open>net\<close> stands for the addresses that Scapy enumerates for the
  target (for a CIDR block, each address of the block once), \<open>received_frames\<close> for the
  ARP frames for Ethernet and IPv4 that arrive during the scan (any other frame answers no
  request). The loop appends one entry per answered request.
\<close>

definition perform_arp_scan :: "(pystr \<Rightarrow> pystr list) \<Rightarrow> arp list \<Rightarrow> pystr \<Rightarrow> device list" where
  "perform_arp_scan net received_frames subnet =
     (let packet = map (\<lambda>a. \<lparr>pdst = a\<rparr>) (net subnet);
          result = srp packet received_frames
      in fold (\<lambda>(sent, received) devices.
                 devices @ [\<lparr>ip = psrc received, mac = hwsrc received, vendor = None\<rparr>])
              result [])"

section \<open>Topology visualizer (visualizer/topology\_visualizer.py)\<close>

text \<open>\<open>s.split(sep)\<close> for a one-character separator, and \<open>sep.join(parts)\<close>.\<close>

fun split_on :: "'a \<Rightarrow> 'a list \<Rightarrow> 'a list list" where
  "split_on sep [] = [[]]"
| "split_on sep (c # cs) =
     (if c = sep then [] # split_on sep cs
      else (case split_on sep cs of
              p # ps \<Rightarrow> (c # p) # ps
            | [] \<Rightarrow> [[c]]))"

fun join :: "'a list \<Rightarrow> 'a list list \<Rightarrow> 'a list" where
  "join sep [] = []"
| "join sep [x] = x"
| "join sep (x # y # ys) = x @ sep @ join sep (y # ys)"

text \<open>
  \<open>detect_gateway\<close>. \<open>all_ips[0]\<close> is read with \<open>getitem0\<close>, so that an empty list there
  would be an IndexError.
\<close>

definition detect_gateway :: "device list \<Rightarrow> error + pystr" where
  "detect_gateway scan_data =
     (case scan_data of
        [] \<Rightarrow> Inr (py ''192.168.1.1'')
      | d0 # _ \<Rightarrow>
          let first = ip d0;
              base = join (py ''.'') (take 3 (split_on 46 first));
              candidate = base @ py ''.1'';
              all_ips = map ip scan_data
          in if candidate \<in> set all_ips then Inr candidate else getitem0 all_ips)"

datatype node_type = Gateway | Local | Device | Vm | Unknown

text \<open>
  \<open>classify_device\<close>. \<open>lower\<close> stands for \<open>str.lower\<close>, the case mapping of Unicode.
\<close>

definition vm_keywords :: "pystr list" where
  "vm_keywords = [py ''vmware'', py ''virtualbox'', py ''hyper-v'']"

definition known_vendors :: "pystr list" where
  "known_vendors = [py ''apple'', py ''samsung'', py ''google'', py ''intel'', py ''hp'',
                    py ''dell'']"

definition classify_device ::
  "(pystr \<Rightarrow> pystr) \<Rightarrow> pystr \<Rightarrow> pystr \<Rightarrow> pystr \<Rightarrow> pystr \<Rightarrow> pystr list \<Rightarrow> node_type" where
  "classify_device lower ip_a mac_a vendor_a gateway_ip local_ips =
     (if ip_a = gateway_ip then Gateway
      else if ip_a \<in> set local_ips then Local
      else if list_ex (\<lambda>vm_kw. substr_in vm_kw (lower vendor_a)) vm_keywords then Vm
      else if list_ex (\<lambda>v. substr_in v (lower vendor_a)) known_vendors then Device
      else Unknown)"

text \<open>
  An undirected graph of networkx: the nodes in insertion order, each with its attribute
  dict (the keys \<open>node_type\<close>, \<open>ip\<close>, \<open>mac\<close>, \<open>vendor\<close>; an absent key is \<open>None\<close>; the
  display attribute \<open>label\<close> is left out), and the edges, each stored once.
  \<open>add_node\<close> on a node that exists updates its attributes with the keys given;
  \<open>add_edge\<close> adds missing end points and ignores an edge that is there, in either
  direction.
\<close>

record attrs =
  a_node_type :: "node_type option"
  a_ip :: "pystr option"
  a_mac :: "pystr option"
  a_vendor :: "pystr option"

record graph =
  nodes :: "(pystr \<times> attrs) list"
  edges :: "(pystr \<times> pystr) list"

definition no_attrs :: attrs where
  "no_attrs = \<lparr>a_node_type = None, a_ip = None, a_mac = None, a_vendor = None\<rparr>"

definition empty_graph :: graph where
  "empty_graph = \<lparr>nodes = [], edges = []\<rparr>"

definition override :: "'a option \<Rightarrow> 'a option \<Rightarrow> 'a option" where
  "override old new = (case new of None \<Rightarrow> old | Some v \<Rightarrow> Some v)"

definition update_attrs :: "attrs \<Rightarrow> attrs \<Rightarrow> attrs" where
  "update_attrs old new =
     \<lparr>a_node_type = override (a_node_type old) (a_node_type new),
      a_ip = override (a_ip old) (a_ip new),
      a_mac = override (a_mac old) (a_mac new),
      a_vendor = override (a_vendor old) (a_vendor new)\<rparr>"

fun upsert :: "pystr \<Rightarrow> attrs \<Rightarrow> (pystr \<times> attrs) list \<Rightarrow> (pystr \<times> attrs) list" where
  "upsert n a [] = [(n, a)]"
| "upsert n a ((m, b) # rest) =
     (if m = n then (m, update_attrs b a) # rest else (m, b) # upsert n a rest)"

definition add_node :: "pystr \<Rightarrow> attrs \<Rightarrow> graph \<Rightarrow> graph" where
  "add_node n a G = G\<lparr>nodes := upsert n a (nodes G)\<rparr>"

definition add_edge :: "pystr \<Rightarrow> pystr \<Rightarrow> graph \<Rightarrow> graph" where
  "add_edge u v G =
     (let G1 = add_node v no_attrs (add_node u no_attrs G)
      in if (u, v) \<in> set (edges G1) \<or> (v, u) \<in> set (edges G1) then G1
         else G1\<lparr>edges := edges G1 @ [(u, v)]\<rparr>)"

text \<open>
  \<open>create_graph_from_scan_data\<close>; \<open>add_device\<close> is the body of its loop (lines 42 to
  48). \<open>local_ips\<close> stands for the result of \<open>detect_local_ips\<close>, which asks the host for
  its own address.
\<close>

definition add_device ::
  "(pystr \<Rightarrow> pystr) \<Rightarrow> pystr list \<Rightarrow> pystr \<Rightarrow> device \<Rightarrow> graph \<Rightarrow> graph" where
  "add_device lower local_ips gateway_ip device G =
     (let ip_a = ip device;
          mac_a = mac device;
          vendor_a = (case vendor device of None \<Rightarrow> py ''Unknown'' | Some v \<Rightarrow> v);
          nt = classify_device lower ip_a mac_a vendor_a gateway_ip local_ips
      in add_edge gateway_ip ip_a
           (add_node ip_a
              \<lparr>a_node_type = Some nt, a_ip = Some ip_a, a_mac = Some mac_a,
               a_vendor = Some vendor_a\<rparr>
              G))"

definition create_graph_from_scan_data ::
  "(pystr \<Rightarrow> pystr) \<Rightarrow> pystr list \<Rightarrow> device list \<Rightarrow> error + graph" where
  "create_graph_from_scan_data lower local_ips scan_data =
     (case detect_gateway scan_data of
        Inl e \<Rightarrow> Inl e
      | Inr gateway_ip \<Rightarrow>
          Inr (fold (add_device lower local_ips gateway_ip) scan_data
                 (add_node gateway_ip
                    \<lparr>a_node_type = Some Gateway, a_ip = Some gateway_ip,
                     a_mac = Some (py ''Gateway''), a_vendor = None\<rparr>
                    empty_graph)))"

text \<open>
  \<open>create_topology\<close>. \<open>draw_network_topology\<close> stands for the method of that name
  (lines 109 to 134) with the export options and the theme it is given: it lays the graph
  out and writes the image with matplotlib, and returns the path of the image or raises.
  \<open>timestamp\<close> stands for the time of the call as \<open>strftime\<close> renders it.
  \<open>self_graph\<close> is the attribute \<open>self.graph\<close>; the result is its new value and the
  outcome of the call.
\<close>

definition create_topology ::
  "(pystr \<Rightarrow> pystr) \<Rightarrow> pystr list \<Rightarrow> (graph \<Rightarrow> pystr \<Rightarrow> error + pystr) \<Rightarrow> pystr
   \<Rightarrow> graph option \<Rightarrow> device list \<Rightarrow> pystr option \<Rightarrow> graph option \<times> (error + pystr)" where
  "create_topology lower local_ips draw_network_topology timestamp self_graph scan_data
                   output_filename =
     (if scan_data = [] then (self_graph, Inl (ValueError (py ''No scan data provided!'')))
      else
        let generated = py ''network_topology_'' @ timestamp @ py ''.png'';
            filename = (case output_filename of
                          None \<Rightarrow> generated
                        | Some f \<Rightarrow> if f = [] then generated else f)
        in case create_graph_from_scan_data lower local_ips scan_data of
             Inl e \<Rightarrow> (self_graph, Inl e)
           | Inr G \<Rightarrow> (Some G, draw_network_topology G filename))"

section \<open>Properties of the packet sniffer\<close>

subsection \<open>The classifier returns for every frame\<close>

lemma classify_packet_shape:
  "\<exists>t m. \<forall>st. classify_packet st pkt = Inr (t, m, bump st t)"
proof (cases "ip_layer pkt")
  case None
  then show ?thesis by (simp add: classify_packet_def haslayer_def)
next
  case ip: (Some iph)
  show ?thesis
  proof (cases "tcp_layer pkt")
    case (Some tcph)
    with ip show ?thesis
      by (simp add: classify_packet_def haslayer_def getlayer_def Let_def)
  next
    case tcp: None
    show ?thesis
    proof (cases "udp_layer pkt")
      case (Some udph)
      with ip tcp show ?thesis
        by (simp add: classify_packet_def haslayer_def getlayer_def Let_def)
    next
      case udp: None
      show ?thesis
      proof (cases "icmp_layer pkt")
        case (Some icmph)
        with ip tcp udp show ?thesis
          by (simp add: classify_packet_def haslayer_def getlayer_def Let_def)
      next
        case None
        with ip tcp udp show ?thesis
          by (simp add: classify_packet_def haslayer_def getlayer_def Let_def)
      qed
    qed
  qed
qed

subsection \<open>The statistics reports\<close>

lemma percent_rows_total:
  "(\<And>c. pc c = Inr (f c)) \<Longrightarrow> percent_rows pc xs = Inr (map (\<lambda>(p, c). (p, c, f c)) xs)"
  by (induction xs) auto

lemma print_stats_value:
  "print_stats self =
     Inr \<lparr>report_total = packet_count self,
          report_rows =
            map (\<lambda>(p, c). (p, c, of_int c
                                  / of_int (if packet_count self > 0 then packet_count self else 1)
                                  * 100))
                (items (protocol_stats self))\<rparr>"
proof -
  let ?total = "if packet_count self > 0 then packet_count self else 1"
  have "percent_rows
          (\<lambda>count. case truediv count ?total of Inl e \<Rightarrow> Inl e | Inr q \<Rightarrow> Inr (q * 100))
          (items (protocol_stats self))
        = Inr (map (\<lambda>(p, c). (p, c, of_int c / of_int ?total * 100))
                 (items (protocol_stats self)))"
    by (rule percent_rows_total) (simp add: truediv_def)
  then show ?thesis by (simp add: print_stats_def Let_def)
qed

lemma final_rows_value:
  "percent_rows
     (\<lambda>count. if n \<noteq> 0
               then (case truediv count n of Inl e \<Rightarrow> Inl e | Inr q \<Rightarrow> Inr (q * 100))
               else Inr 0) xs
   = Inr (map (\<lambda>(p, c). (p, c, if n \<noteq> 0 then of_int c / of_int n * 100 else 0)) xs)"
  by (rule percent_rows_total) (simp add: truediv_def)

lemma stop_sniffing_value:
  "stop_sniffing self =
     Inr (self\<lparr>running := False,
               stats_out := stats_out self
                 @ [\<lparr>report_total = packet_count self,
                     report_rows =
                       map (\<lambda>(p, c). (p, c, if packet_count self \<noteq> 0
                                             then of_int c / of_int (packet_count self) * 100
                                             else 0))
                           (items (protocol_stats self))\<rparr>,
                    \<lparr>report_total = packet_count self,
                     report_rows =
                       map (\<lambda>(p, c). (p, c, of_int c
                                             / of_int (if packet_count self > 0
                                                       then packet_count self else 1)
                                             * 100))
                           (items (protocol_stats self))\<rparr>]\<rparr>)"
  by (simp add: stop_sniffing_def Let_def final_rows_value print_stats_value cong: if_cong)

lemma sum_values_bump: "sum_values (bump st t) = sum_values st + 1"
  by (cases t) (simp_all add: sum_values_def bump_def)

lemma report_sum_print_stats:
  "print_stats self = Inr r \<Longrightarrow>
   report_total r = packet_count self \<and> report_sum r = sum_values (protocol_stats self)"
  by (auto simp: print_stats_value report_sum_def items_def sum_values_def)

subsection \<open>One call of the handler\<close>

lemma packet_handler_step:
  assumes c: "\<forall>st. classify_packet st pkt = Inr (t, m, bump st t)"
  shows "\<exists>self' new. packet_handler self pkt = Inr self'
     \<and> packet_count self' = packet_count self + 1
     \<and> protocol_stats self' = bump (protocol_stats self) t
     \<and> log self' = log self @ [py ''Packet #'' @ str_int (packet_count self + 1)
                                 @ py '': '' @ m]
     \<and> captured_packets self' = captured_packets self @ [pkt]
     \<and> stats_out self' = stats_out self @ new
     \<and> list_all (\<lambda>r. report_total r = packet_count self'
                      \<and> report_sum r = sum_values (protocol_stats self')) new"
proof -
  let ?s2 = "self\<lparr>packet_count := packet_count self + 1,
                   protocol_stats := bump (protocol_stats self) t,
                   log := log self @ [py ''Packet #'' @ str_int (packet_count self + 1)
                                      @ py '': '' @ m],
                   captured_packets := captured_packets self @ [pkt]\<rparr>"
  obtain r where r: "print_stats ?s2 = Inr r"
    by (simp add: print_stats_value)
  from report_sum_print_stats[OF r] have rr:
    "report_total r = packet_count self + 1"
    "report_sum r = sum_values (bump (protocol_stats self) t)" by simp_all
  show ?thesis
  proof (cases "(packet_count self + 1) mod 10 = 0")
    case True
    with c r have "packet_handler self pkt = Inr (?s2\<lparr>stats_out := stats_out self @ [r]\<rparr>)"
      by (simp add: packet_handler_def Let_def)
    with rr show ?thesis
      by (intro exI[of _ "?s2\<lparr>stats_out := stats_out self @ [r]\<rparr>"] exI[of _ "[r]"]) simp
  next
    case False
    with c have "packet_handler self pkt = Inr ?s2"
      by (simp add: packet_handler_def Let_def)
    then show ?thesis by (intro exI[of _ ?s2] exI[of _ "[]"]) simp
  qed
qed

subsection \<open>A whole capture\<close>

lemma sniff_invariant:
  "sum_values (protocol_stats self) = packet_count self \<Longrightarrow>
   \<exists>self' new. sniff self frames = Inr self'
     \<and> packet_count self' = packet_count self + int (length frames)
     \<and> sum_values (protocol_stats self') = packet_count self'
     \<and> stats_out self' = stats_out self @ new
     \<and> list_all (\<lambda>r. report_sum r = report_total r) new"
proof (induction frames arbitrary: self)
  case Nil
  then show ?case by simp
next
  case (Cons pkt frames)
  obtain t m where c: "\<forall>st. classify_packet st pkt = Inr (t, m, bump st t)"
    using classify_packet_shape by blast
  obtain s1 new1 where h: "packet_handler self pkt = Inr s1"
      "packet_count s1 = packet_count self + 1"
      "protocol_stats s1 = bump (protocol_stats self) t"
      "stats_out s1 = stats_out self @ new1"
      "list_all (\<lambda>r. report_total r = packet_count s1
                      \<and> report_sum r = sum_values (protocol_stats s1)) new1"
    using packet_handler_step[OF c, of self] by blast
  from h(2,3) Cons.prems have inv1: "sum_values (protocol_stats s1) = packet_count s1"
    by (simp add: sum_values_bump)
  from Cons.IH[OF inv1] obtain s2 new2 where k: "sniff s1 frames = Inr s2"
      "packet_count s2 = packet_count s1 + int (length frames)"
      "sum_values (protocol_stats s2) = packet_count s2"
      "stats_out s2 = stats_out s1 @ new2"
      "list_all (\<lambda>r. report_sum r = report_total r) new2"
    by blast
  from h(5) inv1 have "list_all (\<lambda>r. report_sum r = report_total r) new1"
    by (simp add: list_all_iff)
  with h k show ?case
    by (intro exI[of _ s2] exI[of _ "new1 @ new2"]) simp
qed

text \<open>
  C1. Session start sets the total and the four counters to zero. Each call of the handler
  returns, adds one to the total and adds one to exactly one counter (the others keep their
  value). After any sequence of frames handled since session start, the four counters sum
  to the total, the total is the number of frames, and every statistics report printed on
  the way shows counts that sum to the total it shows.
\<close>

theorem stats_sum_equals_total:
  "packet_count (start_sniffing self) = 0
   \<and> (\<forall>p. protocol_stats (start_sniffing self) p = 0)
   \<and> (\<exists>self' t. packet_handler self pkt = Inr self'
         \<and> packet_count self' = packet_count self + 1
         \<and> (\<forall>q. protocol_stats self' q = protocol_stats self q + (if q = t then 1 else 0)))
   \<and> (\<exists>self' new. sniff (start_sniffing self) frames = Inr self'
         \<and> packet_count self' = int (length frames)
         \<and> sum_values (protocol_stats self') = packet_count self'
         \<and> stats_out self' = stats_out self @ new
         \<and> list_all (\<lambda>r. report_sum r = report_total r) new)"
proof -
  have a: "packet_count (start_sniffing self) = 0"
    and b: "\<forall>p. protocol_stats (start_sniffing self) p = 0"
    and o: "stats_out (start_sniffing self) = stats_out self"
    by (simp_all add: start_sniffing_def)
  from b a have inv0:
    "sum_values (protocol_stats (start_sniffing self)) = packet_count (start_sniffing self)"
    by (simp add: sum_values_def)
  obtain t m where "\<forall>st. classify_packet st pkt = Inr (t, m, bump st t)"
    using classify_packet_shape by blast
  from packet_handler_step[OF this, of self]
  have c: "\<exists>self' t. packet_handler self pkt = Inr self'
         \<and> packet_count self' = packet_count self + 1
         \<and> (\<forall>q. protocol_stats self' q = protocol_stats self q + (if q = t then 1 else 0))"
    by (auto simp: bump_def)
  have d: "\<exists>self' new. sniff (start_sniffing self) frames = Inr self'
         \<and> packet_count self' = int (length frames)
         \<and> sum_values (protocol_stats self') = packet_count self'
         \<and> stats_out self' = stats_out self @ new
         \<and> list_all (\<lambda>r. report_sum r = report_total r) new"
    using sniff_invariant[OF inv0, of frames] a o by simp
  from a b c d show ?thesis by blast
qed

subsection \<open>Strings, lines and the HTTP sub-parse\<close>

lemma startswith_iff: "startswith s p \<longleftrightarrow> (\<exists>t. s = p @ t)"
  by (induction s p rule: startswith.induct) auto

lemma substr_in_iff: "substr_in sub s \<longleftrightarrow> (\<exists>a b. s = a @ sub @ b)"
proof (induction s)
  case Nil
  then show ?case by simp
next
  case (Cons c cs)
  show ?case
  proof
    assume "substr_in sub (c # cs)"
    then consider "startswith (c # cs) sub" | "substr_in sub cs" by auto
    then show "\<exists>a b. c # cs = a @ sub @ b"
    proof cases
      case 1
      then obtain t where "c # cs = sub @ t" by (auto simp: startswith_iff)
      then have "c # cs = [] @ sub @ t" by simp
      then show ?thesis by blast
    next
      case 2
      with Cons.IH obtain a b where "cs = a @ sub @ b" by blast
      then have "c # cs = (c # a) @ sub @ b" by simp
      then show ?thesis by blast
    qed
  next
    assume "\<exists>a b. c # cs = a @ sub @ b"
    then obtain a b where ab: "c # cs = a @ sub @ b" by blast
    show "substr_in sub (c # cs)"
    proof (cases a)
      case Nil
      with ab have "startswith (c # cs) sub" by (auto simp: startswith_iff)
      then show ?thesis by simp
    next
      case (Cons x a')
      with ab have "cs = a' @ sub @ b" by simp
      with Cons.IH have "substr_in sub cs" by blast
      then show ?thesis by simp
    qed
  qed
qed

lemma splitlines_from_empty_iff: "splitlines_from cur s = [] \<longleftrightarrow> cur = [] \<and> s = []"
  by (induction cur s rule: splitlines_from.induct) auto

lemma splitlines_from_keep:
  "\<not> is_linebreak c \<Longrightarrow> splitlines_from cur (c # s) = splitlines_from (cur @ [c]) s"
  by (cases s) (auto simp: is_linebreak_def)

lemma splitlines_from_hd:
  "cur \<noteq> [] \<or> s \<noteq> [] \<Longrightarrow> \<exists>t rest. splitlines_from cur s = (cur @ t) # rest"
proof (induction cur s rule: splitlines_from.induct)
  case (1 cur)
  then show ?case by simp
next
  case (2 cur c)
  then show ?case by simp
next
  case (3 cur c d cs)
  show ?case
  proof (cases "(c = 13 \<and> d = 10) \<or> is_linebreak c")
    case True
    then show ?thesis by auto
  next
    case False
    with 3 obtain t rest
      where "splitlines_from (cur @ [c]) (d # cs) = ((cur @ [c]) @ t) # rest"
      by fastforce
    with False have "splitlines_from cur (c # d # cs) = (cur @ (c # t)) # rest" by simp
    then show ?thesis by blast
  qed
qed

lemma token_nonempty:
  "list_ex (\<lambda>method. substr_in method data) http_tokens \<Longrightarrow> data \<noteq> []"
  by (auto simp: http_tokens_def py_def)

lemma http_subparse_tagged:
  assumes "raw_layer pkt = Some raw"
    and "list_ex (\<lambda>method. substr_in method (decode_ignore (load raw))) http_tokens"
  shows "\<exists>line rest. splitlines (decode_ignore (load raw)) = line # rest
           \<and> try_http summary pkt = summary @ py '' [HTTP] '' @ line"
proof -
  from assms(2) have "decode_ignore (load raw) \<noteq> []" by (rule token_nonempty)
  then have "splitlines (decode_ignore (load raw)) \<noteq> []"
    by (simp add: splitlines_def splitlines_from_empty_iff)
  then obtain line rest where "splitlines (decode_ignore (load raw)) = line # rest"
    by (cases "splitlines (decode_ignore (load raw))") auto
  with assms show ?thesis
    by (simp add: try_http_def http_subparse_def getlayer_def getitem0_def)
qed

lemma get_slash_decoded: "decode_ignore (pyb ''GET /'' @ bs) = py ''GET /'' @ decode_ignore bs"
  by (simp add: pyb_def py_def)

lemma get_slash_token: "list_ex (\<lambda>method. substr_in method (py ''GET /'' @ x)) http_tokens"
  by (simp add: http_tokens_def py_def)

lemma get_slash_first_line:
  "\<exists>t rest. splitlines (py ''GET /'' @ x) = (py ''GET /'' @ t) # rest"
proof -
  have "splitlines (py ''GET /'' @ x) = splitlines_from (py ''GET /'') x"
    by (simp add: splitlines_def py_def splitlines_from_keep is_linebreak_def)
  moreover have "\<exists>t rest. splitlines_from (py ''GET /'') x = (py ''GET /'' @ t) # rest"
    by (rule splitlines_from_hd) (simp add: py_def)
  ultimately show ?thesis by simp
qed

lemma classify_tcp_port80:
  assumes "ip_layer pkt = Some iph" and "tcp_layer pkt = Some tcph"
    and "tcp_dport tcph = 80 \<or> tcp_sport tcph = 80" and "raw_layer pkt = Some raw"
  shows "classify_packet st pkt
           = Inr (TCP,
                  try_http (py ''TCP '' @ src iph @ py '':'' @ str_int (tcp_sport tcph)
                            @ py '' -> '' @ dst iph @ py '':'' @ str_int (tcp_dport tcph)) pkt
                  @ (if tcp_dport tcph = 443 \<or> tcp_sport tcph = 443
                     then py '' [HTTPS]'' else []),
                  bump st TCP)"
  using assms by (auto simp: classify_packet_def haslayer_def getlayer_def Let_def)

text \<open>
  C4. A frame with an IP and a TCP layer, port 80 on either side and a payload whose
  decoded text contains GET, POST or HTTP is classified TCP, the decoded text has a first
  line, and the summary contains that line behind the tag \<open>[HTTP]\<close>. When the destination
  port is 80 and the payload begins with \<open>GET /\<close>, the summary contains \<open>[HTTP] GET /\<close>.
\<close>

theorem http_request_line_tagged:
  "(ip_layer pkt = Some iph \<and> tcp_layer pkt = Some tcph
      \<and> (tcp_dport tcph = 80 \<or> tcp_sport tcph = 80) \<and> raw_layer pkt = Some raw
      \<and> list_ex (\<lambda>method. substr_in method (decode_ignore (load raw)))
                 [py ''GET'', py ''POST'', py ''HTTP'']
    \<longrightarrow> (\<exists>line rest m. splitlines (decode_ignore (load raw)) = line # rest
            \<and> classify_packet st pkt = Inr (TCP, m, bump st TCP)
            \<and> substr_in (py '' [HTTP] '' @ line) m))
   \<and> (ip_layer pkt = Some iph \<and> tcp_layer pkt = Some tcph
      \<and> tcp_dport tcph = 80 \<and> raw_layer pkt = Some raw
      \<and> startswith (load raw) (pyb ''GET /'')
    \<longrightarrow> (\<exists>m. classify_packet st pkt = Inr (TCP, m, bump st TCP)
            \<and> substr_in (py ''[HTTP] GET /'') m))"
proof (intro conjI impI)
  let ?base = "py ''TCP '' @ src iph @ py '':'' @ str_int (tcp_sport tcph)
               @ py '' -> '' @ dst iph @ py '':'' @ str_int (tcp_dport tcph)"
  let ?tail = "if tcp_dport tcph = 443 \<or> tcp_sport tcph = 443 then py '' [HTTPS]'' else []"
  {
    assume h: "ip_layer pkt = Some iph \<and> tcp_layer pkt = Some tcph
      \<and> (tcp_dport tcph = 80 \<or> tcp_sport tcph = 80) \<and> raw_layer pkt = Some raw
      \<and> list_ex (\<lambda>method. substr_in method (decode_ignore (load raw)))
                 [py ''GET'', py ''POST'', py ''HTTP'']"
    then have tok: "list_ex (\<lambda>method. substr_in method (decode_ignore (load raw))) http_tokens"
      by (simp add: http_tokens_def)
    from h have cl: "classify_packet st pkt = Inr (TCP, try_http ?base pkt @ ?tail, bump st TCP)"
      using classify_tcp_port80[of pkt iph tcph raw st] by blast
    from h tok obtain line rest
      where l: "splitlines (decode_ignore (load raw)) = line # rest"
        and t: "try_http ?base pkt = ?base @ py '' [HTTP] '' @ line"
      using http_subparse_tagged[of pkt raw ?base] by blast
    have "try_http ?base pkt @ ?tail = ?base @ (py '' [HTTP] '' @ line) @ ?tail"
      using t by simp
    then have "substr_in (py '' [HTTP] '' @ line) (try_http ?base pkt @ ?tail)"
      unfolding substr_in_iff by blast
    with cl l
    show "\<exists>line rest m. splitlines (decode_ignore (load raw)) = line # rest
            \<and> classify_packet st pkt = Inr (TCP, m, bump st TCP)
            \<and> substr_in (py '' [HTTP] '' @ line) m"
      by blast
  }
  {
    assume h: "ip_layer pkt = Some iph \<and> tcp_layer pkt = Some tcph
      \<and> tcp_dport tcph = 80 \<and> raw_layer pkt = Some raw
      \<and> startswith (load raw) (pyb ''GET /'')"
    then obtain bs where bs: "load raw = pyb ''GET /'' @ bs"
      by (auto simp: startswith_iff)
    then have dec: "decode_ignore (load raw) = py ''GET /'' @ decode_ignore bs"
      by (simp add: get_slash_decoded)
    then have tok: "list_ex (\<lambda>method. substr_in method (decode_ignore (load raw))) http_tokens"
      by (simp add: get_slash_token)
    from h have cl: "classify_packet st pkt = Inr (TCP, try_http ?base pkt @ ?tail, bump st TCP)"
      using classify_tcp_port80[of pkt iph tcph raw st] by blast
    from h tok obtain line rest
      where l: "splitlines (decode_ignore (load raw)) = line # rest"
        and t: "try_http ?base pkt = ?base @ py '' [HTTP] '' @ line"
      using http_subparse_tagged[of pkt raw ?base] by blast
    from l dec obtain u where u: "line = py ''GET /'' @ u"
      using get_slash_first_line[of "decode_ignore bs"] by auto
    have "py '' [HTTP] '' @ py ''GET /'' = py '' '' @ py ''[HTTP] GET /''"
      by (simp add: py_def)
    then have "try_http ?base pkt @ ?tail
                 = (?base @ py '' '') @ py ''[HTTP] GET /'' @ (u @ ?tail)"
      using t u by simp
    then have "substr_in (py ''[HTTP] GET /'') (try_http ?base pkt @ ?tail)"
      unfolding substr_in_iff by blast
    with cl show "\<exists>m. classify_packet st pkt = Inr (TCP, m, bump st TCP)
            \<and> substr_in (py ''[HTTP] GET /'') m"
      by blast
  }
qed

theorem http_request_line_tagged_witness:
  "ip_layer \<lparr>ip_layer = Some \<lparr>src = py ''10.0.0.5'', dst = py ''10.0.0.1''\<rparr>,
             tcp_layer = Some \<lparr>tcp_sport = 51000, tcp_dport = 80\<rparr>,
             udp_layer = None, icmp_layer = None, dns_layer = False,
             raw_layer = Some \<lparr>load = pyb ''GET / HTTP/1.1'' @ [13, 10]\<rparr>, pkt_len = 70\<rparr>
     = Some \<lparr>src = py ''10.0.0.5'', dst = py ''10.0.0.1''\<rparr>
   \<and> startswith (pyb ''GET / HTTP/1.1'' @ [13, 10]) (pyb ''GET /'')
   \<and> (\<exists>m. classify_packet (\<lambda>_. 0)
              \<lparr>ip_layer = Some \<lparr>src = py ''10.0.0.5'', dst = py ''10.0.0.1''\<rparr>,
               tcp_layer = Some \<lparr>tcp_sport = 51000, tcp_dport = 80\<rparr>,
               udp_layer = None, icmp_layer = None, dns_layer = False,
               raw_layer = Some \<lparr>load = pyb ''GET / HTTP/1.1'' @ [13, 10]\<rparr>, pkt_len = 70\<rparr>
            = Inr (TCP, m, bump (\<lambda>_. 0) TCP)
          \<and> substr_in (py ''[HTTP] GET /'') m)"
proof -
  have s: "startswith (pyb ''GET / HTTP/1.1'' @ [13, 10]) (pyb ''GET /'')"
    by (simp add: pyb_def)
  from s http_request_line_tagged
    [of "\<lparr>ip_layer = Some \<lparr>src = py ''10.0.0.5'', dst = py ''10.0.0.1''\<rparr>,
          tcp_layer = Some \<lparr>tcp_sport = 51000, tcp_dport = 80\<rparr>,
          udp_layer = None, icmp_layer = None, dns_layer = False,
          raw_layer = Some \<lparr>load = pyb ''GET / HTTP/1.1'' @ [13, 10]\<rparr>, pkt_len = 70\<rparr>"
        "\<lparr>src = py ''10.0.0.5'', dst = py ''10.0.0.1''\<rparr>"
        "\<lparr>tcp_sport = 51000, tcp_dport = 80\<rparr>"
        "\<lparr>load = pyb ''GET / HTTP/1.1'' @ [13, 10]\<rparr>"
        "\<lambda>_. 0"]
  show ?thesis by simp
qed

text \<open>Scenarios B and C of the specification, evaluated.\<close>

lemma scenario_B_summary:
  "classify_packet st
     \<lparr>ip_layer = Some \<lparr>src = py ''10.0.0.5'', dst = py ''10.0.0.1''\<rparr>,
      tcp_layer = Some \<lparr>tcp_sport = 51000, tcp_dport = 80\<rparr>,
      udp_layer = None, icmp_layer = None, dns_layer = False,
      raw_layer = Some \<lparr>load = pyb ''GET / HTTP/1.1'' @ [13, 10] @ pyb ''Host: a''\<rparr>,
      pkt_len = 77\<rparr>
   = Inr (TCP, py ''TCP 10.0.0.5:51000 -> 10.0.0.1:80 [HTTP] GET / HTTP/1.1'', bump st TCP)"
  by (simp add: classify_packet_def haslayer_def getlayer_def try_http_def http_subparse_def
                http_tokens_def py_def pyb_def str_int_def digits.simps splitlines_def
                getitem0_def is_linebreak_def)

lemma scenario_C_summary:
  "classify_packet st
     \<lparr>ip_layer = Some \<lparr>src = py ''10.0.0.2'', dst = py ''8.8.8.8''\<rparr>,
      tcp_layer = None, udp_layer = None, icmp_layer = Some \<lparr>icmp_type = 8\<rparr>,
      dns_layer = False, raw_layer = None, pkt_len = 42\<rparr>
   = Inr (ICMP, py ''ICMP 10.0.0.2 -> 8.8.8.8 Type: 8 (Echo Request)'', bump st ICMP)"
  by (simp add: classify_packet_def haslayer_def getlayer_def icmp_types_get_def py_def
                str_int_def digits.simps)

text \<open>
  C5. A frame without an IP layer is classified Other whatever else it carries, and its
  summary is \<open>Unknown Packet (n bytes)\<close> with \<open>n\<close> the length of the frame.
\<close>

theorem no_ip_header_is_other:
  "ip_layer pkt = None \<Longrightarrow>
   classify_packet st pkt
     = Inr (Other, py ''Unknown Packet ('' @ str_int (pkt_len pkt) @ py '' bytes)'',
            bump st Other)"
  by (simp add: classify_packet_def haslayer_def)

theorem no_ip_header_is_other_witness:
  "ip_layer \<lparr>ip_layer = None, tcp_layer = Some \<lparr>tcp_sport = 51000, tcp_dport = 80\<rparr>,
             udp_layer = None, icmp_layer = None, dns_layer = True,
             raw_layer = Some \<lparr>load = pyb ''GET /''\<rparr>, pkt_len = 74\<rparr> = None
   \<and> classify_packet (\<lambda>_. 0)
         \<lparr>ip_layer = None, tcp_layer = Some \<lparr>tcp_sport = 51000, tcp_dport = 80\<rparr>,
          udp_layer = None, icmp_layer = None, dns_layer = True,
          raw_layer = Some \<lparr>load = pyb ''GET /''\<rparr>, pkt_len = 74\<rparr>
       = Inr (Other, py ''Unknown Packet (74 bytes)'', bump (\<lambda>_. 0) Other)"
  using no_ip_header_is_other
    [of "\<lparr>ip_layer = None, tcp_layer = Some \<lparr>tcp_sport = 51000, tcp_dport = 80\<rparr>,
          udp_layer = None, icmp_layer = None, dns_layer = True,
          raw_layer = Some \<lparr>load = pyb ''GET /''\<rparr>, pkt_len = 74\<rparr>" "\<lambda>_. 0"]
  by (simp add: py_def str_int_def digits.simps)

text \<open>
  C6. For every frame and every payload, the classifier and the handler return a result
  and raise nothing; an exception inside the HTTP sub-parse leaves the summary without the
  optional tag.
\<close>

theorem subparse_failures_swallowed:
  "(\<exists>t m st'. classify_packet st pkt = Inr (t, m, st'))
   \<and> (\<exists>self'. packet_handler self pkt = Inr self')
   \<and> (\<forall>e. http_subparse summary pkt = Inl e \<longrightarrow> try_http summary pkt = summary)"
proof -
  obtain t m where c: "\<forall>st. classify_packet st pkt = Inr (t, m, bump st t)"
    using classify_packet_shape by blast
  then have "\<exists>t m st'. classify_packet st pkt = Inr (t, m, st')" by blast
  moreover have "\<exists>self'. packet_handler self pkt = Inr self'"
    using packet_handler_step[OF c, of self] by blast
  moreover have "\<forall>e. http_subparse summary pkt = Inl e \<longrightarrow> try_http summary pkt = summary"
    by (simp add: try_http_def)
  ultimately show ?thesis by blast
qed

theorem subparse_failures_swallowed_witness:
  "http_subparse (py ''TCP'')
     \<lparr>ip_layer = None, tcp_layer = None, udp_layer = None, icmp_layer = None,
      dns_layer = False, raw_layer = None, pkt_len = 0\<rparr> = Inl IndexError
   \<and> try_http (py ''TCP'')
       \<lparr>ip_layer = None, tcp_layer = None, udp_layer = None, icmp_layer = None,
        dns_layer = False, raw_layer = None, pkt_len = 0\<rparr> = py ''TCP''"
  using subparse_failures_swallowed
    [of "\<lambda>_. 0"
        "\<lparr>ip_layer = None, tcp_layer = None, udp_layer = None, icmp_layer = None,
          dns_layer = False, raw_layer = None, pkt_len = 0\<rparr>"
        "\<lparr>packet_count = 0, running = False, protocol_stats = \<lambda>_. 0, captured_packets = [],
          log = [], stats_out = []\<rparr>"
        "py ''TCP''"]
  by (simp add: http_subparse_def getlayer_def)

text \<open>
  C9. Each frame has one tag and one summary: the classifier yields them whatever the
  statistics it is given, and the handler logs that summary whatever the state of the
  session, so classifying a frame again gives the same tag and the same summary.
\<close>

theorem classification_deterministic:
  "\<exists>t m. (\<forall>st. \<exists>st'. classify_packet st pkt = Inr (t, m, st'))
         \<and> (\<forall>self. \<exists>self'. packet_handler self pkt = Inr self'
               \<and> log self' = log self @ [py ''Packet #'' @ str_int (packet_count self + 1)
                                           @ py '': '' @ m])"
proof -
  obtain t m where c: "\<forall>st. classify_packet st pkt = Inr (t, m, bump st t)"
    using classify_packet_shape by blast
  have "\<forall>st. \<exists>st'. classify_packet st pkt = Inr (t, m, st')"
    using c by blast
  moreover have "\<forall>self. \<exists>self'. packet_handler self pkt = Inr self'
               \<and> log self' = log self @ [py ''Packet #'' @ str_int (packet_count self + 1)
                                           @ py '': '' @ m]"
    using packet_handler_step[OF c] by blast
  ultimately show ?thesis by blast
qed

text \<open>
  C10. Neither statistics report divides by zero: \<open>print_stats\<close> and \<open>stop_sniffing\<close>
  return for every state of the session. With a total of zero the snapshot divides by one
  and the final report gives each protocol the percentage zero.
\<close>

theorem stats_reports_never_divide_by_zero:
  "(\<exists>r. print_stats self = Inr r)
   \<and> (\<exists>self'. stop_sniffing self = Inr self')
   \<and> (packet_count self = 0 \<longrightarrow>
        print_stats self
          = Inr \<lparr>report_total = 0,
                 report_rows = map (\<lambda>(p, c). (p, c, of_int c / of_int 1 * 100))
                                   (items (protocol_stats self))\<rparr>
        \<and> (\<exists>self' snapshot. stop_sniffing self = Inr self'
              \<and> stats_out self'
                  = stats_out self
                    @ [\<lparr>report_total = 0,
                        report_rows = map (\<lambda>(p, c). (p, c, 0)) (items (protocol_stats self))\<rparr>,
                       snapshot]))"
  by (simp add: print_stats_value stop_sniffing_value cong: if_cong)

theorem stats_reports_never_divide_by_zero_witness:
  "packet_count \<lparr>packet_count = 0, running = True, protocol_stats = \<lambda>_. 0,
                 captured_packets = [], log = [], stats_out = []\<rparr> = 0
   \<and> print_stats \<lparr>packet_count = 0, running = True, protocol_stats = \<lambda>_. 0,
                   captured_packets = [], log = [], stats_out = []\<rparr>
       = Inr \<lparr>report_total = 0,
              report_rows = [(TCP, 0, 0), (UDP, 0, 0), (ICMP, 0, 0), (Other, 0, 0)]\<rparr>"
  using stats_reports_never_divide_by_zero
    [of "\<lparr>packet_count = 0, running = True, protocol_stats = \<lambda>_. 0,
          captured_packets = [], log = [], stats_out = []\<rparr>"]
  by (simp add: items_def)

section \<open>Properties of the network scanner\<close>

lemma fold_append_entries:
  "fold (\<lambda>(sent, received) devices.
           devices @ [\<lparr>ip = psrc received, mac = hwsrc received, vendor = None\<rparr>]) result acc
   = acc @ map (\<lambda>(sent, received).
                  \<lparr>ip = psrc received, mac = hwsrc received, vendor = None\<rparr>) result"
  by (induction result arbitrary: acc) (auto split: prod.splits)

lemma perform_arp_scan_value:
  "perform_arp_scan net received_frames subnet
     = map (\<lambda>(sent, received). \<lparr>ip = psrc received, mac = hwsrc received, vendor = None\<rparr>)
           (srp (map (\<lambda>a. \<lparr>pdst = a\<rparr>) (net subnet)) received_frames)"
  by (simp add: perform_arp_scan_def fold_append_entries)

subsection \<open>Matching frames with requests\<close>

lemma first_answered_None:
  "first_answered r ps = None \<longleftrightarrow> (\<forall>s \<in> set ps. \<not> answers r s)"
  by (induction ps) (auto split: option.splits)

lemma first_answered_Some:
  "first_answered r ps = Some (s, remain) \<Longrightarrow>
   answers r s \<and> (\<exists>before. ps = before @ s # (drop (length before) remain)
                            \<and> remain = before @ drop (length before) remain)"
proof (induction ps arbitrary: s remain)
  case Nil
  then show ?case by simp
next
  case (Cons x ps)
  show ?case
  proof (cases "answers r x")
    case True
    with Cons.prems have "s = x" "remain = ps" by simp_all
    with True have "answers r s \<and> x # ps = [] @ s # drop (length ([]::arp_request list)) remain
                    \<and> remain = [] @ drop (length ([]::arp_request list)) remain"
      by simp
    then show ?thesis by blast
  next
    case False
    with Cons.prems obtain rem' where f: "first_answered r ps = Some (s, rem')"
      and r: "remain = x # rem'"
      by (auto split: option.splits)
    from Cons.IH[OF f] obtain before where a: "answers r s"
      and b: "ps = before @ s # drop (length before) rem'"
      and c: "rem' = before @ drop (length before) rem'"
      by blast
    from b c r have "x # ps = (x # before) @ s # drop (length (x # before)) remain
                     \<and> remain = (x # before) @ drop (length (x # before)) remain"
      by simp
    with a show ?thesis by blast
  qed
qed

lemma first_answered_split:
  assumes "first_answered r ps = Some (s, remain)"
  shows "answers r s" and "\<exists>before after. ps = before @ s # after \<and> remain = before @ after"
  using first_answered_Some[OF assms] by blast+

lemma srp_pairs:
  "(s, r) \<in> set (srp ps rs) \<Longrightarrow> s \<in> set ps \<and> r \<in> set rs \<and> answers r s"
proof (induction rs arbitrary: ps)
  case Nil
  then show ?case by simp
next
  case (Cons q rs)
  show ?case
  proof (cases "first_answered q ps")
    case None
    with Cons show ?thesis by auto
  next
    case (Some p)
    obtain s' remain where p: "p = (s', remain)" by (cases p)
    from first_answered_split[OF Some[unfolded p]]
    obtain before after where a: "answers q s'" and b: "ps = before @ s' # after"
      and c: "remain = before @ after"
      by blast
    from Cons.prems Some p consider "(s, r) = (s', q)" | "(s, r) \<in> set (srp remain rs)"
      by auto
    then show ?thesis
    proof cases
      case 1
      with a b show ?thesis by auto
    next
      case 2
      from Cons.IH[OF 2] b c show ?thesis by auto
    qed
  qed
qed

lemma srp_distinct_sources:
  "distinct (map pdst ps) \<Longrightarrow> distinct (map (\<lambda>(s, r). psrc r) (srp ps rs))"
proof (induction rs arbitrary: ps)
  case Nil
  then show ?case by simp
next
  case (Cons q rs)
  show ?case
  proof (cases "first_answered q ps")
    case None
    with Cons show ?thesis by simp
  next
    case (Some p)
    obtain s' remain where p: "p = (s', remain)" by (cases p)
    from first_answered_split[OF Some[unfolded p]]
    obtain before after where a: "answers q s'" and b: "ps = before @ s' # after"
      and c: "remain = before @ after"
      by blast
    from Cons.prems b c have d: "distinct (map pdst remain)"
      and n: "pdst s' \<notin> pdst ` set remain"
      by auto
    have "psrc q \<notin> (\<lambda>(s, r). psrc r) ` set (srp remain rs)"
    proof
      assume "psrc q \<in> (\<lambda>(s, r). psrc r) ` set (srp remain rs)"
      then obtain s r where m: "(s, r) \<in> set (srp remain rs)" and e: "psrc r = psrc q"
        by auto
      from srp_pairs[OF m] have "s \<in> set remain" "psrc r = pdst s"
        by (simp_all add: answers_def)
      moreover from a have "psrc q = pdst s'" by (simp add: answers_def)
      ultimately have "pdst s' \<in> pdst ` set remain" using e by force
      with n show False by contradiction
    qed
    with Cons.IH[OF d] Some p show ?thesis by simp
  qed
qed

lemma srp_first_frame_kept:
  "distinct (map pdst ps) \<Longrightarrow> op r = who_has + 1 \<Longrightarrow> psrc r \<in> pdst ` set ps \<Longrightarrow>
   \<forall>q \<in> set pre. \<not> (op q = who_has + 1 \<and> psrc q = psrc r) \<Longrightarrow>
   \<exists>s. (s, r) \<in> set (srp ps (pre @ r # post))"
proof (induction pre arbitrary: ps)
  case Nil
  from Nil.prems(2,3) have "\<exists>s \<in> set ps. answers r s" by (auto simp: answers_def)
  then obtain p where "first_answered r ps = Some p"
    using first_answered_None[of r ps] by (cases "first_answered r ps") auto
  then show ?case by (cases p) auto
next
  case (Cons q pre)
  from Cons.prems(4) have nq: "\<not> (op q = who_has + 1 \<and> psrc q = psrc r)"
    and rest: "\<forall>q \<in> set pre. \<not> (op q = who_has + 1 \<and> psrc q = psrc r)"
    by simp_all
  show ?case
  proof (cases "first_answered q ps")
    case None
    with Cons.IH[OF Cons.prems(1,2,3) rest] show ?thesis by simp
  next
    case (Some p)
    obtain s' remain where p: "p = (s', remain)" by (cases p)
    from first_answered_split[OF Some[unfolded p]]
    obtain before after where a: "answers q s'" and b: "ps = before @ s' # after"
      and c: "remain = before @ after"
      by blast
    from a nq have "pdst s' \<noteq> psrc r" by (auto simp: answers_def)
    with Cons.prems(3) b c have m: "psrc r \<in> pdst ` set remain" by auto
    from Cons.prems(1) b c have d: "distinct (map pdst remain)" by auto
    from Cons.IH[OF d Cons.prems(2) m rest] Some p show ?thesis by auto
  qed
qed

text \<open>
  C2, as the code has it. For a target whose addresses are pairwise distinct, as those of
  a CIDR block are, the scan returns no two entries with the same IP. Every entry carries
  an address of the target and the hardware address of an ARP reply received from it, and
  the first reply from an address of the target is the one whose entry is returned: later
  replies from that address are dropped, they overwrite nothing.
\<close>

theorem arp_scan_first_reply_per_ip:
  assumes "distinct (net subnet)"
  shows "distinct (map ip (perform_arp_scan net received_frames subnet))
    \<and> (\<forall>d \<in> set (perform_arp_scan net received_frames subnet).
          ip d \<in> set (net subnet)
          \<and> (\<exists>r \<in> set received_frames. op r = who_has + 1 \<and> ip d = psrc r \<and> mac d = hwsrc r
                \<and> vendor d = None))
    \<and> (\<forall>pre r post.
          received_frames = pre @ r # post \<and> op r = who_has + 1 \<and> psrc r \<in> set (net subnet)
          \<and> (\<forall>q \<in> set pre. \<not> (op q = who_has + 1 \<and> psrc q = psrc r))
          \<longrightarrow> \<lparr>ip = psrc r, mac = hwsrc r, vendor = None\<rparr>
                \<in> set (perform_arp_scan net received_frames subnet))"
proof (intro conjI ballI allI impI)
  let ?ps = "map (\<lambda>a. \<lparr>pdst = a\<rparr>) (net subnet)"
  let ?dev = "\<lambda>(sent, received). \<lparr>ip = psrc received, mac = hwsrc received, vendor = None\<rparr>"
  have pd: "map pdst ?ps = net subnet" by (simp add: comp_def)
  with assms have dp: "distinct (map pdst ?ps)" by simp
  have c: "ip \<circ> ?dev = (\<lambda>(s, r). psrc r)" by (auto simp: fun_eq_iff)
  have "map ip (perform_arp_scan net received_frames subnet)
          = map (\<lambda>(s, r). psrc r) (srp ?ps received_frames)"
    by (simp only: perform_arp_scan_value map_map c)
  with srp_distinct_sources[OF dp, of received_frames]
  show "distinct (map ip (perform_arp_scan net received_frames subnet))" by simp
  {
    fix d assume "d \<in> set (perform_arp_scan net received_frames subnet)"
    then obtain s r where m: "(s, r) \<in> set (srp ?ps received_frames)"
      and d: "d = \<lparr>ip = psrc r, mac = hwsrc r, vendor = None\<rparr>"
      by (auto simp: perform_arp_scan_value)
    from srp_pairs[OF m] have "s \<in> set ?ps" "r \<in> set received_frames" "answers r s"
      by simp_all
    moreover from this(1) have "pdst s \<in> set (net subnet)" by auto
    ultimately have "ip d \<in> set (net subnet)"
      and "r \<in> set received_frames \<and> op r = who_has + 1 \<and> ip d = psrc r \<and> mac d = hwsrc r
           \<and> vendor d = None"
      using d by (simp_all add: answers_def)
    then show "ip d \<in> set (net subnet)"
      and "\<exists>r \<in> set received_frames. op r = who_has + 1 \<and> ip d = psrc r \<and> mac d = hwsrc r
                \<and> vendor d = None"
      by blast+
  }
  {
    fix pre r post
    assume h: "received_frames = pre @ r # post \<and> op r = who_has + 1
          \<and> psrc r \<in> set (net subnet)
          \<and> (\<forall>q \<in> set pre. \<not> (op q = who_has + 1 \<and> psrc q = psrc r))"
    then have "psrc r \<in> pdst ` set ?ps" using pd by (metis list.set_map)
    with h srp_first_frame_kept[OF dp, of r pre post]
    obtain s where "(s, r) \<in> set (srp ?ps received_frames)" by auto
    then have "?dev (s, r) \<in> set (perform_arp_scan net received_frames subnet)"
      unfolding perform_arp_scan_value by (metis (no_types, lifting) image_eqI list.set_map)
    then show "\<lparr>ip = psrc r, mac = hwsrc r, vendor = None\<rparr>
                \<in> set (perform_arp_scan net received_frames subnet)"
      by simp
  }
qed

theorem arp_scan_first_reply_per_ip_witness:
  "distinct (map ip (perform_arp_scan
       (\<lambda>_. [py ''192.168.1.0'', py ''192.168.1.1'', py ''192.168.1.2'', py ''192.168.1.3''])
       [\<lparr>op = 2, psrc = py ''192.168.1.1'', hwsrc = py ''bb:01''\<rparr>,
        \<lparr>op = 2, psrc = py ''192.168.1.2'', hwsrc = py ''cc:02''\<rparr>,
        \<lparr>op = 2, psrc = py ''192.168.1.1'', hwsrc = py ''bb:09''\<rparr>]
       (py ''192.168.1.0/30'')))
   \<and> perform_arp_scan
       (\<lambda>_. [py ''192.168.1.0'', py ''192.168.1.1'', py ''192.168.1.2'', py ''192.168.1.3''])
       [\<lparr>op = 2, psrc = py ''192.168.1.1'', hwsrc = py ''bb:01''\<rparr>,
        \<lparr>op = 2, psrc = py ''192.168.1.2'', hwsrc = py ''cc:02''\<rparr>,
        \<lparr>op = 2, psrc = py ''192.168.1.1'', hwsrc = py ''bb:09''\<rparr>]
       (py ''192.168.1.0/30'')
     = [\<lparr>ip = py ''192.168.1.1'', mac = py ''bb:01'', vendor = None\<rparr>,
        \<lparr>ip = py ''192.168.1.2'', mac = py ''cc:02'', vendor = None\<rparr>]"
proof -
  have d: "distinct [py ''192.168.1.0'', py ''192.168.1.1'', py ''192.168.1.2'',
                     py ''192.168.1.3'']"
    by (simp add: py_def)
  from d arp_scan_first_reply_per_ip
    [of "\<lambda>_. [py ''192.168.1.0'', py ''192.168.1.1'', py ''192.168.1.2'', py ''192.168.1.3'']"
        "py ''192.168.1.0/30''"
        "[\<lparr>op = 2, psrc = py ''192.168.1.1'', hwsrc = py ''bb:01''\<rparr>,
          \<lparr>op = 2, psrc = py ''192.168.1.2'', hwsrc = py ''cc:02''\<rparr>,
          \<lparr>op = 2, psrc = py ''192.168.1.1'', hwsrc = py ''bb:09''\<rparr>]"]
  have "distinct (map ip (perform_arp_scan
       (\<lambda>_. [py ''192.168.1.0'', py ''192.168.1.1'', py ''192.168.1.2'', py ''192.168.1.3''])
       [\<lparr>op = 2, psrc = py ''192.168.1.1'', hwsrc = py ''bb:01''\<rparr>,
        \<lparr>op = 2, psrc = py ''192.168.1.2'', hwsrc = py ''cc:02''\<rparr>,
        \<lparr>op = 2, psrc = py ''192.168.1.1'', hwsrc = py ''bb:09''\<rparr>]
       (py ''192.168.1.0/30'')))"
    by blast
  moreover have "perform_arp_scan
       (\<lambda>_. [py ''192.168.1.0'', py ''192.168.1.1'', py ''192.168.1.2'', py ''192.168.1.3''])
       [\<lparr>op = 2, psrc = py ''192.168.1.1'', hwsrc = py ''bb:01''\<rparr>,
        \<lparr>op = 2, psrc = py ''192.168.1.2'', hwsrc = py ''cc:02''\<rparr>,
        \<lparr>op = 2, psrc = py ''192.168.1.1'', hwsrc = py ''bb:09''\<rparr>]
       (py ''192.168.1.0/30'')
     = [\<lparr>ip = py ''192.168.1.1'', mac = py ''bb:01'', vendor = None\<rparr>,
        \<lparr>ip = py ''192.168.1.2'', mac = py ''cc:02'', vendor = None\<rparr>]"
    by (simp add: perform_arp_scan_def answers_def who_has_def py_def)
  ultimately show ?thesis by blast
qed

text \<open>
  C2, as stated, fails where it says that the later reply wins: of two replies from
  192.168.1.1 the scan returns the hardware address of the first, and the one seen last
  is not in the result.
\<close>

theorem arp_scan_last_reply_counterexample:
  "perform_arp_scan (\<lambda>_. [py ''192.168.1.1''])
     [\<lparr>op = 2, psrc = py ''192.168.1.1'', hwsrc = py ''bb:01''\<rparr>,
      \<lparr>op = 2, psrc = py ''192.168.1.1'', hwsrc = py ''bb:02''\<rparr>]
     (py ''192.168.1.1/32'')
     = [\<lparr>ip = py ''192.168.1.1'', mac = py ''bb:01'', vendor = None\<rparr>]
   \<and> \<lparr>ip = py ''192.168.1.1'', mac = py ''bb:02'', vendor = None\<rparr>
       \<notin> set (perform_arp_scan (\<lambda>_. [py ''192.168.1.1''])
                [\<lparr>op = 2, psrc = py ''192.168.1.1'', hwsrc = py ''bb:01''\<rparr>,
                 \<lparr>op = 2, psrc = py ''192.168.1.1'', hwsrc = py ''bb:02''\<rparr>]
                (py ''192.168.1.1/32''))"
  by (simp add: perform_arp_scan_def answers_def who_has_def py_def)

section \<open>Properties of the topology visualizer\<close>

subsection \<open>Gateway detection\<close>

lemma split_on_no_sep: "sep \<notin> set a \<Longrightarrow> split_on sep a = [a]"
  by (induction a) auto

lemma split_on_append:
  "sep \<notin> set a \<Longrightarrow> split_on sep (a @ sep # rest) = a # split_on sep rest"
  by (induction a) auto

lemma split_on_join:
  "parts \<noteq> [] \<Longrightarrow> \<forall>p \<in> set parts. sep \<notin> set p \<Longrightarrow> split_on sep (join [sep] parts) = parts"
proof (induction parts rule: induct_list012)
  case 1
  then show ?case by simp
next
  case (2 x)
  then show ?case by (simp add: split_on_no_sep)
next
  case (3 x y ys)
  then show ?case by (simp add: split_on_append)
qed

lemma dot_literal: "py ''.'' = [46]"
  by (simp add: py_def)

lemma detect_gateway_nonempty:
  "detect_gateway (d0 # rest) =
     Inr (let candidate = join (py ''.'') (take 3 (split_on 46 (ip d0))) @ py ''.1''
          in if candidate \<in> set (map ip (d0 # rest)) then candidate else ip d0)"
  by (simp add: detect_gateway_def Let_def getitem0_def)

lemma detect_gateway_member:
  "scan_data \<noteq> [] \<Longrightarrow> \<exists>gw. detect_gateway scan_data = Inr gw \<and> gw \<in> ip ` set scan_data"
  by (cases scan_data) (auto simp: detect_gateway_nonempty Let_def)

text \<open>
  C7. Let the first device's IP be the dot-separated fields \<open>parts\<close>. The candidate is the
  first three fields joined by dots, followed by \<open>.1\<close>. Gateway detection returns the
  candidate when it is the IP of a scanned device, and the first device's IP otherwise.
  For the devices 192.168.1.1 and 192.168.1.50 it returns 192.168.1.1.
\<close>

theorem detect_gateway_rule:
  assumes "parts \<noteq> []" and "\<forall>p \<in> set parts. 46 \<notin> set p"
    and "ip d0 = join (py ''.'') parts"
  shows "detect_gateway (d0 # rest) =
           Inr (let candidate = join (py ''.'') (take 3 parts) @ py ''.1''
                in if candidate \<in> set (map ip (d0 # rest)) then candidate else ip d0)"
proof -
  from assms have "split_on 46 (ip d0) = parts"
    by (simp add: dot_literal split_on_join)
  then show ?thesis by (simp add: detect_gateway_nonempty)
qed

theorem detect_gateway_rule_witness:
  "py ''192.168.1.1'' = join (py ''.'') [py ''192'', py ''168'', py ''1'', py ''1'']
   \<and> detect_gateway [\<lparr>ip = py ''192.168.1.1'', mac = py ''11:22:33:44:55:66'', vendor = None\<rparr>,
                      \<lparr>ip = py ''192.168.1.50'', mac = py ''00:11:22:33:44:55'', vendor = None\<rparr>]
       = Inr (py ''192.168.1.1'')"
  using detect_gateway_rule [of "[py ''192'', py ''168'', py ''1'', py ''1'']"
      "\<lparr>ip = py ''192.168.1.1'', mac = py ''11:22:33:44:55:66'', vendor = None\<rparr>"
      "[\<lparr>ip = py ''192.168.1.50'', mac = py ''00:11:22:33:44:55'', vendor = None\<rparr>]"]
  by (simp add: py_def)

subsection \<open>Building the graph\<close>

text \<open>
  C8. \<open>create_topology\<close> on the empty device list raises the ValueError
  \<open>No scan data provided!\<close> before any graph is built: \<open>self.graph\<close> keeps its value and
  nothing is drawn. On a non-empty list the guard raises nothing: the graph is built and
  stored, and the call ends as \<open>draw_network_topology\<close> ends on that graph, so it raises
  the error of the empty input only if the drawing raises that very error.
\<close>

theorem create_topology_empty_input:
  "create_topology lower local_ips draw timestamp self_graph [] output_filename
     = (self_graph, Inl (ValueError (py ''No scan data provided!'')))
   \<and> (scan_data \<noteq> [] \<longrightarrow>
        (\<exists>G. create_graph_from_scan_data lower local_ips scan_data = Inr G
           \<and> create_topology lower local_ips draw timestamp self_graph scan_data output_filename
               = (Some G,
                  draw G (case output_filename of
                            None \<Rightarrow> py ''network_topology_'' @ timestamp @ py ''.png''
                          | Some f \<Rightarrow> if f = []
                                      then py ''network_topology_'' @ timestamp @ py ''.png''
                                      else f))))
   \<and> (scan_data \<noteq> []
        \<and> (\<forall>G f. draw G f \<noteq> Inl (ValueError (py ''No scan data provided!'')))
      \<longrightarrow> snd (create_topology lower local_ips draw timestamp self_graph scan_data
                 output_filename)
            \<noteq> Inl (ValueError (py ''No scan data provided!'')))"
proof -
  have e: "create_topology lower local_ips draw timestamp self_graph [] output_filename
     = (self_graph, Inl (ValueError (py ''No scan data provided!'')))"
    by (simp add: create_topology_def)
  have n: "\<exists>G. create_graph_from_scan_data lower local_ips scan_data = Inr G
           \<and> create_topology lower local_ips draw timestamp self_graph scan_data output_filename
               = (Some G,
                  draw G (case output_filename of
                            None \<Rightarrow> py ''network_topology_'' @ timestamp @ py ''.png''
                          | Some f \<Rightarrow> if f = []
                                      then py ''network_topology_'' @ timestamp @ py ''.png''
                                      else f))"
    if "scan_data \<noteq> []"
  proof -
    from that obtain gw where "detect_gateway scan_data = Inr gw"
      using detect_gateway_member by blast
    then obtain G where "create_graph_from_scan_data lower local_ips scan_data = Inr G"
      by (simp add: create_graph_from_scan_data_def)
    with that show ?thesis by (simp add: create_topology_def Let_def)
  qed
  have g: "snd (create_topology lower local_ips draw timestamp self_graph scan_data
                 output_filename)
            \<noteq> Inl (ValueError (py ''No scan data provided!''))"
    if "scan_data \<noteq> []"
      and "\<forall>G f. draw G f \<noteq> Inl (ValueError (py ''No scan data provided!''))"
    using n[OF that(1)] that(2) by auto
  from e n g show ?thesis by blast
qed

theorem create_topology_empty_input_witness:
  "snd (create_topology (\<lambda>v. v) [] (\<lambda>G f. Inl (ValueError (py ''Received invalid argument(s)'')))
         (py ''20250101_120000'') None
         [\<lparr>ip = py ''10.0.0.7'', mac = py ''aa:bb:cc:dd:ee:ff'', vendor = None\<rparr>] None)
     = Inl (ValueError (py ''Received invalid argument(s)''))
   \<and> snd (create_topology (\<lambda>v. v) [] (\<lambda>G f. Inl (ValueError (py ''Received invalid argument(s)'')))
         (py ''20250101_120000'') None
         [\<lparr>ip = py ''10.0.0.7'', mac = py ''aa:bb:cc:dd:ee:ff'', vendor = None\<rparr>] None)
     \<noteq> Inl (ValueError (py ''No scan data provided!''))"
proof -
  have d: "\<forall>(G::graph) (f::pystr).
             (Inl (ValueError (py ''Received invalid argument(s)'')) :: error + pystr)
             \<noteq> Inl (ValueError (py ''No scan data provided!''))"
    by (simp add: py_def)
  have s: "[\<lparr>ip = py ''10.0.0.7'', mac = py ''aa:bb:cc:dd:ee:ff'', vendor = None\<rparr>] \<noteq> []"
    by simp
  from s d create_topology_empty_input
    [of "\<lambda>v. v" "[]" "\<lambda>G f. Inl (ValueError (py ''Received invalid argument(s)''))"
        "py ''20250101_120000''" None None
        "[\<lparr>ip = py ''10.0.0.7'', mac = py ''aa:bb:cc:dd:ee:ff'', vendor = None\<rparr>]"]
  show ?thesis by auto
qed

lemma edges_add_node: "edges (add_node n a G) = edges G"
  by (simp add: add_node_def)

lemma edges_add_edge_from_hub:
  assumes "\<forall>e \<in> set (edges G). fst e = u"
  shows "set (edges (add_edge u v G)) = insert (u, v) (set (edges G))"
proof -
  have "(v, u) \<in> set (edges G) \<Longrightarrow> (u, v) \<in> set (edges G)"
    using assms by fastforce
  then show ?thesis
    by (auto simp: add_edge_def Let_def edges_add_node)
qed

lemma edges_add_device:
  assumes "\<forall>e \<in> set (edges G). fst e = gw"
  shows "set (edges (add_device lower local_ips gw d G)) = insert (gw, ip d) (set (edges G))"
proof -
  have "\<forall>e \<in> set (edges (add_node n a G)). fst e = gw" for n a
    using assms by (simp add: edges_add_node)
  then show ?thesis
    by (simp add: add_device_def Let_def edges_add_edge_from_hub edges_add_node)
qed

lemma edges_fold_add_device:
  "\<forall>e \<in> set (edges G). fst e = gw \<Longrightarrow>
   set (edges (fold (add_device lower local_ips gw) ds G))
     = set (edges G) \<union> (\<lambda>d. (gw, ip d)) ` set ds"
proof (induction ds arbitrary: G)
  case Nil
  then show ?case by simp
next
  case (Cons d ds)
  let ?G1 = "add_device lower local_ips gw d G"
  from Cons.prems have e1: "set (edges ?G1) = insert (gw, ip d) (set (edges G))"
    by (rule edges_add_device)
  with Cons.prems have "\<forall>e \<in> set (edges ?G1). fst e = gw" by auto
  from Cons.IH[OF this] e1 show ?case by auto
qed

text \<open>
  The edges of the graph of a non-empty device list: one from the gateway to each device,
  the gateway's own entry among them, and no other.
\<close>

lemma graph_edges_star_with_loop:
  assumes "scan_data \<noteq> []"
  shows "\<exists>gw G. detect_gateway scan_data = Inr gw
           \<and> create_graph_from_scan_data lower local_ips scan_data = Inr G
           \<and> set (edges G) = (\<lambda>d. (gw, ip d)) ` set scan_data
           \<and> (gw, gw) \<in> set (edges G)"
proof -
  from assms obtain gw where gw: "detect_gateway scan_data = Inr gw" "gw \<in> ip ` set scan_data"
    using detect_gateway_member by blast
  let ?H = "add_node gw \<lparr>a_node_type = Some Gateway, a_ip = Some gw,
                          a_mac = Some (py ''Gateway''), a_vendor = None\<rparr> empty_graph"
  let ?G = "fold (add_device lower local_ips gw) scan_data ?H"
  have e0: "edges ?H = []" by (simp add: edges_add_node empty_graph_def)
  then have "\<forall>e \<in> set (edges ?H). fst e = gw" by simp
  from edges_fold_add_device[OF this] e0
  have es: "set (edges ?G) = (\<lambda>d. (gw, ip d)) ` set scan_data" by simp
  moreover from gw(2) es have "(gw, gw) \<in> set (edges ?G)" by auto
  moreover from gw(1) have "create_graph_from_scan_data lower local_ips scan_data = Inr ?G"
    by (simp add: create_graph_from_scan_data_def)
  ultimately show ?thesis using gw(1) by blast
qed

lemma map_fst_upsert:
  "map fst (upsert n a xs) = (if n \<in> fst ` set xs then map fst xs else map fst xs @ [n])"
proof (induction xs)
  case Nil
  then show ?case by simp
next
  case (Cons x xs)
  obtain m b where x: "x = (m, b)" by (cases x)
  show ?case
  proof (cases "m = n")
    case True
    with x show ?thesis by simp
  next
    case False
    with x Cons.IH show ?thesis by simp
  qed
qed

lemma keys_upsert: "fst ` set (upsert n a xs) = insert n (fst ` set xs)"
proof -
  have "set (map fst (upsert n a xs)) = insert n (set (map fst xs))"
    unfolding map_fst_upsert by auto
  then show ?thesis by simp
qed

lemma distinct_upsert: "distinct (map fst xs) \<Longrightarrow> distinct (map fst (upsert n a xs))"
  unfolding map_fst_upsert by auto

lemma upsert_no_attrs_present:
  "n \<in> fst ` set xs \<Longrightarrow> upsert n no_attrs xs = xs"
proof (induction xs)
  case Nil
  then show ?case by simp
next
  case (Cons x xs)
  obtain m b where x: "x = (m, b)" by (cases x)
  show ?case
  proof (cases "m = n")
    case True
    with x show ?thesis by (simp add: update_attrs_def override_def no_attrs_def)
  next
    case False
    with x Cons.prems have "n \<in> fst ` set xs" by auto
    with Cons.IH x False show ?thesis by simp
  qed
qed

lemma typed_upsert:
  "list_all (\<lambda>(m, b). (a_node_type b = Some Gateway) = (m = gw)) xs \<Longrightarrow>
   (nt = Gateway) = (n = gw) \<Longrightarrow>
   list_all (\<lambda>(m, b). (a_node_type b = Some Gateway) = (m = gw))
     (upsert n \<lparr>a_node_type = Some nt, a_ip = i, a_mac = h, a_vendor = v\<rparr> xs)"
  by (induction xs) (auto simp: update_attrs_def override_def)

lemma classify_device_gateway:
  "(classify_device lower ip_a mac_a vendor_a gw local_ips = Gateway) = (ip_a = gw)"
  by (simp add: classify_device_def)

lemma nodes_add_device:
  assumes "gw \<in> set (map fst (nodes G))"
  shows "nodes (add_device lower local_ips gw d G)
           = upsert (ip d)
               \<lparr>a_node_type = Some (classify_device lower (ip d) (mac d)
                                      (case vendor d of None \<Rightarrow> py ''Unknown'' | Some v \<Rightarrow> v)
                                      gw local_ips),
                a_ip = Some (ip d), a_mac = Some (mac d),
                a_vendor = Some (case vendor d of None \<Rightarrow> py ''Unknown'' | Some v \<Rightarrow> v)\<rparr>
               (nodes G)"
proof -
  let ?xs = "upsert (ip d)
               \<lparr>a_node_type = Some (classify_device lower (ip d) (mac d)
                                      (case vendor d of None \<Rightarrow> py ''Unknown'' | Some v \<Rightarrow> v)
                                      gw local_ips),
                a_ip = Some (ip d), a_mac = Some (mac d),
                a_vendor = Some (case vendor d of None \<Rightarrow> py ''Unknown'' | Some v \<Rightarrow> v)\<rparr>
               (nodes G)"
  from assms have g: "gw \<in> fst ` set ?xs" by (simp add: keys_upsert)
  have i: "ip d \<in> fst ` set ?xs" by (simp add: keys_upsert)
  from g have "upsert gw no_attrs ?xs = ?xs" by (rule upsert_no_attrs_present)
  moreover from i have "upsert (ip d) no_attrs ?xs = ?xs" by (rule upsert_no_attrs_present)
  ultimately show ?thesis
    by (simp add: add_device_def add_edge_def add_node_def Let_def)
qed

lemma nodes_fold_add_device:
  "gw \<in> set (map fst (nodes G)) \<Longrightarrow> distinct (map fst (nodes G)) \<Longrightarrow>
   list_all (\<lambda>(m, b). (a_node_type b = Some Gateway) = (m = gw)) (nodes G) \<Longrightarrow>
   set (map fst (nodes (fold (add_device lower local_ips gw) ds G)))
     = set (map fst (nodes G)) \<union> ip ` set ds
   \<and> distinct (map fst (nodes (fold (add_device lower local_ips gw) ds G)))
   \<and> list_all (\<lambda>(m, b). (a_node_type b = Some Gateway) = (m = gw))
         (nodes (fold (add_device lower local_ips gw) ds G))"
proof (induction ds arbitrary: G)
  case Nil
  then show ?case by simp
next
  case (Cons d ds)
  let ?G1 = "add_device lower local_ips gw d G"
  note n1 = nodes_add_device[OF Cons.prems(1), of lower local_ips d]
  have k1: "set (map fst (nodes ?G1)) = insert (ip d) (set (map fst (nodes G)))"
    by (simp add: n1 keys_upsert)
  with Cons.prems(1) have a: "gw \<in> set (map fst (nodes ?G1))" by simp
  from Cons.prems(2) have b: "distinct (map fst (nodes ?G1))"
    by (simp only: n1 distinct_upsert)
  from Cons.prems(3)
  have c: "list_all (\<lambda>(m, b). (a_node_type b = Some Gateway) = (m = gw)) (nodes ?G1)"
    by (simp only: n1) (rule typed_upsert, simp_all add: classify_device_gateway)
  from Cons.IH[OF a b c] k1 show ?case by auto
qed

lemma distinct_edges_add_edge:
  "distinct (edges G) \<Longrightarrow> distinct (edges (add_edge u v G))"
  by (simp add: add_edge_def add_node_def Let_def)

lemma distinct_edges_fold:
  "distinct (edges G) \<Longrightarrow> distinct (edges (fold (add_device lower local_ips gw) ds G))"
proof (induction ds arbitrary: G)
  case Nil
  then show ?case by simp
next
  case (Cons d ds)
  from Cons.prems have "distinct (edges (add_device lower local_ips gw d G))"
    by (simp add: add_device_def Let_def distinct_edges_add_edge add_node_def)
  from Cons.IH[OF this] show ?case by simp
qed

text \<open>
  The nodes of that graph: one per IP of the device list, and the gateway's node is the
  only one of type \<open>gateway\<close>. No edge is stored twice.
\<close>

lemma graph_nodes_one_gateway:
  assumes "scan_data \<noteq> []"
  shows "\<exists>gw G. detect_gateway scan_data = Inr gw
           \<and> create_graph_from_scan_data lower local_ips scan_data = Inr G
           \<and> set (map fst (nodes G)) = ip ` set scan_data
           \<and> distinct (map fst (nodes G))
           \<and> list_all (\<lambda>(m, b). (a_node_type b = Some Gateway) = (m = gw)) (nodes G)
           \<and> distinct (edges G)"
proof -
  from assms obtain gw where gw: "detect_gateway scan_data = Inr gw" "gw \<in> ip ` set scan_data"
    using detect_gateway_member by blast
  let ?H = "add_node gw \<lparr>a_node_type = Some Gateway, a_ip = Some gw,
                          a_mac = Some (py ''Gateway''), a_vendor = None\<rparr> empty_graph"
  let ?G = "fold (add_device lower local_ips gw) scan_data ?H"
  have h: "nodes ?H = [(gw, \<lparr>a_node_type = Some Gateway, a_ip = Some gw,
                            a_mac = Some (py ''Gateway''), a_vendor = None\<rparr>)]"
    "edges ?H = []"
    by (simp_all add: add_node_def empty_graph_def)
  have "gw \<in> set (map fst (nodes ?H))" "distinct (map fst (nodes ?H))"
    "list_all (\<lambda>(m, b). (a_node_type b = Some Gateway) = (m = gw)) (nodes ?H)"
    by (simp_all add: h)
  from nodes_fold_add_device[OF this, of lower local_ips scan_data] gw(2) h(1)
  have "set (map fst (nodes ?G)) = ip ` set scan_data" "distinct (map fst (nodes ?G))"
    "list_all (\<lambda>(m, b). (a_node_type b = Some Gateway) = (m = gw)) (nodes ?G)"
    by auto
  moreover have "distinct (edges ?G)" by (rule distinct_edges_fold) (simp add: h)
  moreover from gw(1) have "create_graph_from_scan_data lower local_ips scan_data = Inr ?G"
    by (simp add: create_graph_from_scan_data_def)
  ultimately show ?thesis using gw(1) by blast
qed

text \<open>
  C3 at the device list 192.168.1.1, 192.168.1.50: the gateway is 192.168.1.1, the device
  with that IP is joined to it, and the graph has the edge from 192.168.1.1 to itself.
\<close>

theorem gateway_self_loop_example:
  "map_sum id edges
     (create_graph_from_scan_data lower local_ips
        [\<lparr>ip = py ''192.168.1.1'', mac = py ''11:22:33:44:55:66'', vendor = None\<rparr>,
         \<lparr>ip = py ''192.168.1.50'', mac = py ''00:11:22:33:44:55'', vendor = None\<rparr>])
   = Inr [(py ''192.168.1.1'', py ''192.168.1.1''), (py ''192.168.1.1'', py ''192.168.1.50'')]"
  by (simp add: create_graph_from_scan_data_def detect_gateway_def getitem0_def Let_def
                add_device_def add_edge_def add_node_def empty_graph_def py_def)

end
